theory Spec2Isabelle
  imports
    Main
    "HOL-Library.Char_ord"
    "HOL-Library.List_Lexorder"
    "HOL-Library.Sublist"
    "HOL-Library.Multiset"
begin

section \<open>The pre-renderer build.py\<close>

text \<open>
  build.py serves the project over a local HTTP server, opens every file
  \<^verbatim>\<open>entries/<name>.html\<close> through \<^verbatim>\<open>data.html?id=<name>\<close> in a headless
  browser, waits until the page's script has filled \<^verbatim>\<open>#projectContent\<close> and writes the
  rendered markup to \<^verbatim>\<open>wiki/<name>.html\<close>.

  The script is embedded as functions on an explicit \<open>world\<close>: the two directories, the
  pages of the browser and the trace of the effects performed so far. What the file
  system and the browser answer is not code of the script; it is a parameter of the
  model (\<open>env\<close>), and an exception is a value \<open>Inl e\<close>.
\<close>

subsection \<open>Strings\<close>

text \<open>
  A \<open>char\<close> stands for a code point in U+0000..U+00FF, so the order of \<open>string\<close>
  (characters by code, lists lexicographically) is the order of Python's \<^verbatim>\<open>str\<close>.
  On this range Python's \<^verbatim>\<open>str.lower\<close> and JavaScript's \<^verbatim>\<open>toLowerCase\<close> agree: the
  letters A..Z and U+00C0..U+00DE (without the multiplication sign U+00D7) move up by 32,
  every other character stays.
\<close>

definition lower_char :: "char \<Rightarrow> char" where
  "lower_char c =
     (let n = (of_char c :: nat) in
      if (65 \<le> n \<and> n \<le> 90) \<or> (192 \<le> n \<and> n \<le> 222 \<and> n \<noteq> 215)
      then char_of (n + 32) else c)"

definition lower :: "string \<Rightarrow> string" where
  "lower s = map lower_char s"

text \<open>\<^verbatim>\<open>s.rfind(c)\<close>: the highest index at which \<open>c\<close> stands in \<open>s\<close>, or \<open>-1\<close>.\<close>

fun rfind :: "char \<Rightarrow> string \<Rightarrow> int" where
  "rfind c [] = - 1"
| "rfind c (x # xs) =
     (let r = rfind c xs in
      if 0 \<le> r then r + 1 else if x = c then 0 else - 1)"

subsection \<open>Paths\<close>

text \<open>
  \<^verbatim>\<open>PurePath.suffix\<close> and \<^verbatim>\<open>PurePath.stem\<close> of pathlib, on the final component of a
  path: the name is cut at its last dot, unless that dot is the first or the last
  character of the name.
\<close>

definition suffix_path :: "string \<Rightarrow> string" where
  "suffix_path nm =
     (let i = rfind CHR ''.'' nm in
      if 0 < i \<and> i < int (length nm) - 1 then drop (nat i) nm else [])"

definition stem :: "string \<Rightarrow> string" where
  "stem nm =
     (let i = rfind CHR ''.'' nm in
      if 0 < i \<and> i < int (length nm) - 1 then take (nat i) nm else nm)"

text \<open>
  One item of \<^verbatim>\<open>ENTRIES_DIR.iterdir()\<close>: its \<^verbatim>\<open>.name\<close> and what \<^verbatim>\<open>.is_file()\<close> answers.
\<close>

record dir_entry =
  name :: string
  is_file :: bool

text \<open>What stands at the path \<^verbatim>\<open>entries\<close>: nothing, something that is not a directory,
  or a directory with its items in the order the operating system lists them.\<close>

datatype path_status = Missing | NotADirectory | Directory "dir_entry list"

fun exists_path :: "path_status \<Rightarrow> bool" where
  "exists_path Missing = False"
| "exists_path NotADirectory = True"
| "exists_path (Directory l) = True"

fun is_dir :: "path_status \<Rightarrow> bool" where
  "is_dir (Directory l) = True"
| "is_dir Missing = False"
| "is_dir NotADirectory = False"

subsection \<open>Entry discovery\<close>

text \<open>
  Line 72 of build.py, on the listing of the directory:
  \<^verbatim>\<open>sorted([f for f in ENTRIES_DIR.iterdir() if f.is_file() and f.suffix.lower() == ".html"])\<close>.
  The paths share their parent, so \<^verbatim>\<open>sorted\<close> orders them by name (on a POSIX system,
  where paths compare case-sensitively); it is stable, as \<open>sort_key\<close> is.
\<close>

definition discover :: "dir_entry list \<Rightarrow> dir_entry list" where
  "discover listing =
     sort_key name [f \<leftarrow> listing. is_file f \<and> lower (suffix_path (name f)) = ''.html'']"

text \<open>
  The extension in the words of the specification: a name has the extension \<open>ext\<close>,
  compared without regard to case, when it is a non-empty base followed by a spelling of
  \<open>ext\<close>.
\<close>

definition has_extension :: "string \<Rightarrow> string \<Rightarrow> bool" where
  "has_extension ext nm = (\<exists>base e. base \<noteq> [] \<and> nm = base @ e \<and> lower e = ext)"

subsection \<open>The readiness predicate\<close>

text \<open>
  The page as the predicate sees it: \<^verbatim>\<open>document.getElementById\<close>, and of an element
  its \<^verbatim>\<open>innerText\<close> and \<^verbatim>\<open>textContent\<close>, each of which may be absent
  (\<^verbatim>\<open>undefined\<close>, \<^verbatim>\<open>null\<close>).
\<close>

record element =
  innerText :: "string option"
  textContent :: "string option"

type_synonym document = "string \<Rightarrow> element option"

text \<open>\<^verbatim>\<open>v || s\<close> for a string \<open>s\<close>: \<open>v\<close> when it is truthy (a non-empty string),
  otherwise \<open>s\<close>.\<close>

fun or_string :: "string option \<Rightarrow> string \<Rightarrow> string" where
  "or_string (Some (c # cs)) s = c # cs"
| "or_string (Some []) s = s"
| "or_string None s = s"

text \<open>\<^verbatim>\<open>el.innerText || el.textContent || ''\<close>\<close>

definition element_text :: "element \<Rightarrow> string" where
  "element_text el = or_string (innerText el) (or_string (textContent el) [])"

text \<open>The white space and line terminators that \<^verbatim>\<open>String.prototype.trim\<close> removes, in
  the range of \<open>char\<close>: TAB, LF, VT, FF, CR, SPACE and NO-BREAK SPACE.\<close>

definition is_space :: "char \<Rightarrow> bool" where
  "is_space c = ((of_char c :: nat) \<in> {9, 10, 11, 12, 13, 32, 160})"

definition trim :: "string \<Rightarrow> string" where
  "trim s = rev (dropWhile is_space (rev (dropWhile is_space s)))"

text \<open>\<^verbatim>\<open>txt.includes(pat)\<close>: \<open>pat\<close> stands somewhere in \<open>txt\<close>.\<close>

fun includes_js :: "string \<Rightarrow> string \<Rightarrow> bool" where
  "includes_js [] pat = (pat = [])"
| "includes_js (x # xs) pat = (prefix pat (x # xs) \<or> includes_js xs pat)"

text \<open>The function handed to \<^verbatim>\<open>page.wait_for_function\<close> (lines 95 to 102).\<close>

definition ready :: "document \<Rightarrow> bool" where
  "ready doc =
     (case doc ''projectContent'' of
        None \<Rightarrow> False
      | Some el \<Rightarrow>
          (let txt = trim (element_text el) in
           if txt = [] then False
           else if includes_js (lower txt) ''loading...'' then False
           else True))"

subsection \<open>Exceptions and what the browser answers\<close>

text \<open>
  The exceptions of class \<^verbatim>\<open>Exception\<close> that a call can raise: Playwright's
  \<^verbatim>\<open>TimeoutError\<close>, imported as \<^verbatim>\<open>PlaywrightTimeoutError\<close>, or any other one,
  with its message.
\<close>

datatype exn = PlaywrightTimeoutError | Error string

text \<open>
  \<^verbatim>\<open>page.wait_for_function(f, timeout=WAIT_TIMEOUT_MS)\<close> evaluates \<open>f\<close> in the page
  again and again until it holds or the time is over. The list is what the successive
  evaluations before the deadline meet: a state of the document, or an exception of the
  page. The function returns once \<open>f\<close> holds, it raises what the page raises, and it
  raises the timeout when the list is used up.
\<close>

fun wait_for_function :: "(document \<Rightarrow> bool) \<Rightarrow> (exn + document) list \<Rightarrow> exn + unit" where
  "wait_for_function f [] = Inl PlaywrightTimeoutError"
| "wait_for_function f (Inl e # ps) = Inl e"
| "wait_for_function f (Inr doc # ps) = (if f doc then Inr () else wait_for_function f ps)"

text \<open>
  What the browser and the file system answer to the calls made for one entry:
  \<^verbatim>\<open>context.new_page()\<close>, \<^verbatim>\<open>page.goto\<close>, the evaluations of the readiness predicate,
  \<^verbatim>\<open>page.content()\<close> and \<^verbatim>\<open>out_path.write_text\<close>. \<open>None\<close> is a call that returns.
\<close>

record session =
  new_page_result :: "exn option"
  goto_result :: "exn option"
  polls :: "(exn + document) list"
  content_result :: "exn + string"
  write_text_result :: "exn option"

text \<open>The surroundings of a run: the working directory, the port that
  \<^verbatim>\<open>find_free_port\<close> returns, and the session of every entry, by file name.\<close>

record env =
  cwd :: string
  free_port :: nat
  sessions :: "string \<Rightarrow> session"

subsection \<open>The world and its trace\<close>

text \<open>\<^verbatim>\<open>f"{base_url}/{TEMPLATE}?id={name}"\<close> with \<^verbatim>\<open>base_url = f"http://{HOST}:{port}"\<close>:
  host, port, page and the value of \<^verbatim>\<open>id\<close>.\<close>

datatype url = Url string nat string string

datatype message =
    NothingToRender
  | Rendering string
  | Warning string
  | Saved string nat
  | Failed string exn
  | Done

datatype event =
    Mkdir
  | ServerStarted nat
  | BrowserLaunched
  | Listed
  | NewPage nat
  | OnConsole nat
  | Goto nat url
  | WaitForFunction nat
  | Content nat
  | WriteText string string
  | ClosePage nat
  | BrowserClosed
  | Print message

text \<open>
  The directory \<^verbatim>\<open>entries\<close>; the directory \<^verbatim>\<open>wiki\<close>, which is absent (\<open>None\<close>) or
  holds files with their text; the pages of the browser context that are open and the
  number of pages created so far (a page is identified by its number); and the effects
  so far, each with the entry in whose iteration of the loop it happened (\<open>None\<close>
  outside the loop).
\<close>

record world =
  entries_dir :: path_status
  wiki_dir :: "(string \<rightharpoonup> string) option"
  open_pages :: "nat list"
  pages_created :: nat
  trace :: "(string option \<times> event) list"

definition emit :: "string option \<Rightarrow> event \<Rightarrow> world \<Rightarrow> world" where
  "emit sc ev w = w\<lparr>trace := trace w @ [(sc, ev)]\<rparr>"

text \<open>The text of \<^verbatim>\<open>wiki/<fname>\<close>, if the file is there.\<close>

definition wiki_file :: "world \<Rightarrow> string \<Rightarrow> string option" where
  "wiki_file w fname = (case wiki_dir w of None \<Rightarrow> None | Some files \<Rightarrow> files fname)"

text \<open>A process that starts: no page, no effect yet.\<close>

definition start :: "path_status \<Rightarrow> (string \<rightharpoonup> string) option \<Rightarrow> world" where
  "start entries wiki =
     \<lparr>entries_dir = entries, wiki_dir = wiki, open_pages = [], pages_created = 0, trace = []\<rparr>"

subsection \<open>The calls of the script\<close>

text \<open>A call on the world either raises or returns a result.\<close>

type_synonym 'a action = "world \<Rightarrow> (exn + 'a) \<times> world"

text \<open>One statement after the other: an exception of the first skips the rest.\<close>

definition and_then :: "'a action \<Rightarrow> ('a \<Rightarrow> 'b action) \<Rightarrow> 'b action" where
  "and_then m k w = (case m w of (Inl e, w') \<Rightarrow> (Inl e, w') | (Inr x, w') \<Rightarrow> k x w')"

definition print_msg :: "string option \<Rightarrow> message \<Rightarrow> world \<Rightarrow> world" where
  "print_msg sc m w = emit sc (Print m) w"

text \<open>\<^verbatim>\<open>WIKI_DIR.mkdir(parents=True, exist_ok=True)\<close>: a directory that is there stays
  as it is.\<close>

definition mkdir :: "world \<Rightarrow> world" where
  "mkdir w =
     emit None Mkdir
       (w\<lparr>wiki_dir := Some (case wiki_dir w of None \<Rightarrow> Map.empty | Some files \<Rightarrow> files)\<rparr>)"

text \<open>\<^verbatim>\<open>context.new_page()\<close>: a page that no earlier call returned.\<close>

definition new_page :: "session \<Rightarrow> string \<Rightarrow> nat action" where
  "new_page s fname w =
     (case new_page_result s of
        Some e \<Rightarrow> (Inl e, w)
      | None \<Rightarrow>
          (let page = pages_created w in
           (Inr page,
            emit (Some fname) (NewPage page)
              (w\<lparr>pages_created := Suc page, open_pages := page # open_pages w\<rparr>))))"

text \<open>\<^verbatim>\<open>page.close()\<close>\<close>

definition close_page :: "string \<Rightarrow> nat \<Rightarrow> world \<Rightarrow> world" where
  "close_page fname page w =
     emit (Some fname) (ClosePage page) (w\<lparr>open_pages := remove1 page (open_pages w)\<rparr>)"

text \<open>\<^verbatim>\<open>page.goto(src_url, wait_until="networkidle", timeout=20_000)\<close>\<close>

definition goto :: "session \<Rightarrow> string \<Rightarrow> nat \<Rightarrow> url \<Rightarrow> unit action" where
  "goto s fname page src_url w =
     (case goto_result s of
        Some e \<Rightarrow> (Inl e, emit (Some fname) (Goto page src_url) w)
      | None \<Rightarrow> (Inr (), emit (Some fname) (Goto page src_url) w))"

text \<open>Lines 93 to 106: the wait for the readiness predicate, and the handler of its
  timeout, which prints a warning and goes on.\<close>

definition wait_for_render :: "session \<Rightarrow> string \<Rightarrow> nat \<Rightarrow> unit action" where
  "wait_for_render s fname page w =
     (let w1 = emit (Some fname) (WaitForFunction page) w in
      case wait_for_function ready (polls s) of
        Inr u \<Rightarrow> (Inr (), w1)
      | Inl e \<Rightarrow>
          if e = PlaywrightTimeoutError
          then (Inr (), print_msg (Some fname) (Warning (stem fname)) w1)
          else (Inl e, w1))"

text \<open>\<^verbatim>\<open>page.content()\<close>\<close>

definition content :: "session \<Rightarrow> string \<Rightarrow> nat \<Rightarrow> string action" where
  "content s fname page w = (content_result s, emit (Some fname) (Content page) w)"

text \<open>
  \<^verbatim>\<open>out_path.write_text(rendered_html, encoding="utf-8")\<close> with
  \<^verbatim>\<open>out_path = WIKI_DIR / entry.name\<close>. The call writes the whole text or raises and
  leaves the directory as it was; it raises in any case when there is no directory.
\<close>

definition write_text :: "session \<Rightarrow> string \<Rightarrow> string \<Rightarrow> unit action" where
  "write_text s fname data w =
     (case write_text_result s of
        Some e \<Rightarrow> (Inl e, w)
      | None \<Rightarrow>
          (case wiki_dir w of
             None \<Rightarrow> (Inl (Error ''FileNotFoundError''), w)
           | Some files \<Rightarrow>
               (Inr (),
                emit (Some fname) (WriteText fname data)
                  (w\<lparr>wiki_dir := Some (files(fname \<mapsto> data))\<rparr>))))"

text \<open>\<^verbatim>\<open>out_path.stat().st_size\<close>: the length of the text in UTF-8.\<close>

definition utf8_size :: "string \<Rightarrow> nat" where
  "utf8_size data = (\<Sum>c\<leftarrow>data. if (of_char c :: nat) < 128 then 1 else 2)"

definition stat_size :: "string \<Rightarrow> nat action" where
  "stat_size fname w =
     (case wiki_file w fname of
        None \<Rightarrow> (Inl (Error ''FileNotFoundError''), w)
      | Some data \<Rightarrow> (Inr (utf8_size data), w))"

subsection \<open>The loop of \<^verbatim>\<open>render_all\<close>\<close>

text \<open>Lines 90 to 111, the body of the \<^verbatim>\<open>try\<close>.\<close>

definition try_body :: "session \<Rightarrow> string \<Rightarrow> nat \<Rightarrow> url \<Rightarrow> unit action" where
  "try_body s fname page src_url =
     and_then (goto s fname page src_url) (\<lambda>u.
     and_then (wait_for_render s fname page) (\<lambda>u.
     and_then (content s fname page) (\<lambda>rendered_html.
     and_then (write_text s fname rendered_html) (\<lambda>u.
     and_then (stat_size fname) (\<lambda>st_size w.
       (Inr (), print_msg (Some fname) (Saved fname st_size) w))))))"

text \<open>
  Lines 89 to 117, \<^verbatim>\<open>try\<close> with its handlers: \<^verbatim>\<open>except Exception\<close> prints the
  failure and goes on; \<^verbatim>\<open>finally\<close> closes the page. No exception leaves the
  statement.
\<close>

definition try_render :: "session \<Rightarrow> string \<Rightarrow> nat \<Rightarrow> url \<Rightarrow> world \<Rightarrow> world" where
  "try_render s fname page src_url w =
     (let (r, w1) = try_body s fname page src_url w;
          w2 = (case r of
                  Inl e \<Rightarrow> print_msg (Some fname) (Failed (stem fname) e) w1
                | Inr u \<Rightarrow> w1)
      in close_page fname page w2)"

text \<open>
  Lines 79 to 117, one iteration of the loop. The page is opened and the console hook
  registered before the \<^verbatim>\<open>try\<close>, so an exception of \<^verbatim>\<open>context.new_page()\<close>
  leaves the iteration.
\<close>

definition render_entry :: "env \<Rightarrow> dir_entry \<Rightarrow> unit action" where
  "render_entry ev entry w =
     (let fname = name entry;
          nm = stem fname;
          src_url = Url ''127.0.0.1'' (free_port ev) ''data.html'' nm;
          s = sessions ev fname;
          w1 = print_msg (Some fname) (Rendering fname) w
      in case new_page s fname w1 of
           (Inl e, w2) \<Rightarrow> (Inl e, w2)
         | (Inr page, w2) \<Rightarrow>
             (Inr (), try_render s fname page src_url (emit (Some fname) (OnConsole page) w2)))"

text \<open>\<^verbatim>\<open>for entry in entries:\<close> an exception that leaves an iteration leaves the loop.\<close>

fun for_entries :: "env \<Rightarrow> dir_entry list \<Rightarrow> unit action" where
  "for_entries ev [] w = (Inr (), w)"
| "for_entries ev (entry # rest) w =
     (case render_entry ev entry w of
        (Inl e, w') \<Rightarrow> (Inl e, w')
      | (Inr u, w') \<Rightarrow> for_entries ev rest w')"

text \<open>\<^verbatim>\<open>ENTRIES_DIR.iterdir()\<close>\<close>

fun iterdir :: "path_status \<Rightarrow> exn + dir_entry list" where
  "iterdir Missing = Inl (Error ''FileNotFoundError'')"
| "iterdir NotADirectory = Inl (Error ''NotADirectoryError'')"
| "iterdir (Directory listing) = Inr listing"

text \<open>
  \<^verbatim>\<open>render_all\<close>, lines 52 to 121. The server thread and the browser are started
  (these calls are taken to return), the entries are discovered and rendered in turn.
\<close>

definition render_all :: "env \<Rightarrow> unit action" where
  "render_all ev w =
     (let w1 = emit None (ServerStarted (free_port ev)) w;
          w2 = emit None BrowserLaunched w1
      in case iterdir (entries_dir w2) of
           Inl e \<Rightarrow> (Inl e, w2)
         | Inr listing \<Rightarrow>
             (let entries = discover listing;
                  w3 = emit None Listed w2
              in if entries = []
                 then (Inr (), emit None BrowserClosed (print_msg None NothingToRender w3))
                 else (case for_entries ev entries w3 of
                         (Inl e, w4) \<Rightarrow> (Inl e, w4)
                       | (Inr u, w4) \<Rightarrow>
                           (Inr (), print_msg None Done (emit None BrowserClosed w4)))))"

subsection \<open>The script\<close>

text \<open>How the process ends: it returns, it exits on \<^verbatim>\<open>SystemExit\<close> with a message, or
  an exception leaves it.\<close>

datatype outcome = Returned | SystemExit string | Raised exn

text \<open>
  The module from its first statement: the check of lines 29 and 30, \<^verbatim>\<open>mkdir\<close> of
  line 31, and the call of \<^verbatim>\<open>render_all\<close> of line 124.
  \<^verbatim>\<open>ENTRIES_DIR.resolve()\<close> is the path under the working directory.
\<close>

definition build :: "env \<Rightarrow> world \<Rightarrow> outcome \<times> world" where
  "build ev w =
     (if \<not> exists_path (entries_dir w) \<or> \<not> is_dir (entries_dir w)
      then (SystemExit (''Entries directory not found: '' @ cwd ev @ ''/entries''), w)
      else (case render_all ev (mkdir w) of
              (Inl e, w') \<Rightarrow> (Raised e, w')
            | (Inr u, w') \<Rightarrow> (Returned, w')))"

subsection \<open>Reading a run\<close>




text \<open>The files written so far, in the order of the writes.\<close>

fun written :: "event \<Rightarrow> (string \<times> string) list" where
  "written (WriteText fname data) = [(fname, data)]"
| "written ev = []"

definition writes :: "world \<Rightarrow> (string \<times> string) list" where
  "writes w = concat (map (\<lambda>x. written (snd x)) (trace w))"

text \<open>The entries whose iteration has begun, in the order of their first message.\<close>

fun rendering :: "event \<Rightarrow> string list" where
  "rendering (Print (Rendering fname)) = [fname]"
| "rendering ev = []"

definition started :: "world \<Rightarrow> string list" where
  "started w = concat (map (\<lambda>x. rendering (snd x)) (trace w))"

text \<open>For every effect made inside the loop, the entry of its iteration.\<close>

fun in_loop :: "string option \<times> event \<Rightarrow> string list" where
  "in_loop (Some fname, ev) = [fname]"
| "in_loop (None, ev) = []"

definition scopes :: "world \<Rightarrow> string list" where
  "scopes w = concat (map in_loop (trace w))"

text \<open>What \<^verbatim>\<open>context.new_page()\<close> raises for the entries on which it raises, in the
  order of the entries.\<close>

definition acquisition_errors :: "env \<Rightarrow> dir_entry list \<Rightarrow> exn list" where
  "acquisition_errors ev entries =
     List.map_filter (\<lambda>f. new_page_result (sessions ev (name f))) entries"

text \<open>The entries up to the first one on which \<^verbatim>\<open>context.new_page()\<close> raises, that
  one included.\<close>

fun attempted :: "env \<Rightarrow> dir_entry list \<Rightarrow> dir_entry list" where
  "attempted ev [] = []"
| "attempted ev (f # fs) =
     (if new_page_result (sessions ev (name f)) = None then f # attempted ev fs else [f])"

text \<open>
  The discipline of the pages, checked along a trace: the state is the page that is
  open, if any, and the pages opened so far. A page is opened only while none is open and
  is a new one; a call on a page and its closing are made on the page that is open.
\<close>

fun session_step :: "nat option \<times> nat list \<Rightarrow> event \<Rightarrow> (nat option \<times> nat list) option" where
  "session_step (cur, used) (NewPage p) =
     (if cur = None \<and> p \<notin> set used then Some (Some p, p # used) else None)"
| "session_step (cur, used) (ClosePage p) = (if cur = Some p then Some (None, used) else None)"
| "session_step (cur, used) (OnConsole p) = (if cur = Some p then Some (cur, used) else None)"
| "session_step (cur, used) (Goto p u) = (if cur = Some p then Some (cur, used) else None)"
| "session_step (cur, used) (WaitForFunction p) =
     (if cur = Some p then Some (cur, used) else None)"
| "session_step (cur, used) (Content p) = (if cur = Some p then Some (cur, used) else None)"
| "session_step (cur, used) ev = Some (cur, used)"



subsection \<open>Example runs\<close>

definition alpha :: dir_entry where
  "alpha = \<lparr>name = ''alpha.html'', is_file = True\<rparr>"

definition beta :: dir_entry where
  "beta = \<lparr>name = ''beta.html'', is_file = True\<rparr>"

definition gamma :: dir_entry where
  "gamma = \<lparr>name = ''gamma.txt'', is_file = True\<rparr>"

text \<open>A page whose container shows the given text.\<close>

definition showing :: "string \<Rightarrow> document" where
  "showing txt ident =
     (if ident = ''projectContent''
      then Some \<lparr>innerText = Some txt, textContent = Some txt\<rparr>
      else None)"

text \<open>A session that renders after one evaluation of the predicate.\<close>

definition quick_session :: session where
  "quick_session =
     \<lparr>new_page_result = None, goto_result = None,
      polls = [Inr (showing ''Loading...''), Inr (showing ''Hello'')],
      content_result = Inr ''<p>Hello</p>'', write_text_result = None\<rparr>"

text \<open>A session whose page keeps showing the sentinel until the wait is over.\<close>

definition slow_session :: session where
  "slow_session =
     \<lparr>new_page_result = None, goto_result = None,
      polls = [Inr (showing ''Loading...''), Inr (showing '' loading... '')],
      content_result = Inr ''<p>Loading...</p>'', write_text_result = None\<rparr>"

text \<open>A session whose navigation runs into its own timeout.\<close>

definition offline_session :: session where
  "offline_session =
     \<lparr>new_page_result = None, goto_result = Some PlaywrightTimeoutError,
      polls = [], content_result = Inr [], write_text_result = None\<rparr>"

text \<open>A session for which the browser, already gone, opens no page.\<close>

definition crashed_session :: session where
  "crashed_session =
     \<lparr>new_page_result = Some (Error ''Target closed''), goto_result = None,
      polls = [], content_result = Inr [], write_text_result = None\<rparr>"

definition site :: "(string \<Rightarrow> session) \<Rightarrow> env" where
  "site ss = \<lparr>cwd = ''/site'', free_port = 8000, sessions = ss\<rparr>"

section \<open>Properties\<close>

subsection \<open>Names and extensions\<close>

lemma of_char_lower_char:
  "(of_char (lower_char c) :: nat) =
     (let n = of_char c in
      if (65 \<le> n \<and> n \<le> 90) \<or> (192 \<le> n \<and> n \<le> 222 \<and> n \<noteq> 215) then n + 32 else n)"
  by (simp add: lower_char_def Let_def)

lemma lower_char_dot: "lower_char c = CHR ''.'' \<longleftrightarrow> c = CHR ''.''"
proof -
  have "lower_char c = CHR ''.'' \<longleftrightarrow> (of_char (lower_char c) :: nat) = of_char CHR ''.''"
    by (simp only: of_char_eq_iff)
  also have "\<dots> \<longleftrightarrow> (of_char c :: nat) = of_char CHR ''.''"
    by (auto simp add: of_char_lower_char Let_def)
  also have "\<dots> \<longleftrightarrow> c = CHR ''.''"
    by (simp only: of_char_eq_iff)
  finally show ?thesis .
qed

lemma rfind_bounds: "- 1 \<le> rfind c xs \<and> rfind c xs < int (length xs)"
  by (induction xs) (auto simp add: Let_def)

lemma rfind_absent: "c \<notin> set xs \<Longrightarrow> rfind c xs = - 1"
  by (induction xs) (auto simp add: Let_def)

lemma rfind_last: "c \<notin> set ys \<Longrightarrow> rfind c (xs @ c # ys) = int (length xs)"
  by (induction xs) (auto simp add: Let_def rfind_absent)

lemma stem_suffix_path: "stem nm @ suffix_path nm = nm"
  by (simp add: stem_def suffix_path_def Let_def)

lemma lower_dot_html:
  assumes "lower e = ''.html''"
  shows "\<exists>r. e = CHR ''.'' # r \<and> CHR ''.'' \<notin> set r \<and> length r = 4"
proof -
  from assms obtain a b c d f where e: "e = [a, b, c, d, f]"
    and l: "lower_char a = CHR ''.''" "lower_char b = CHR ''h''" "lower_char c = CHR ''t''"
       "lower_char d = CHR ''m''" "lower_char f = CHR ''l''"
    by (auto simp add: lower_def map_eq_Cons_conv)
  from l(1) have "a = CHR ''.''" by (simp add: lower_char_dot)
  moreover have "b \<noteq> CHR ''.''" "c \<noteq> CHR ''.''" "d \<noteq> CHR ''.''" "f \<noteq> CHR ''.''"
    using l lower_char_dot[of "CHR ''.''"] by auto
  ultimately show ?thesis using e by simp
qed

lemma rfind_extension:
  assumes "lower e = ''.html''"
  shows "rfind CHR ''.'' (base @ e) = int (length base)" and "length e = 5"
proof -
  from lower_dot_html[OF assms] obtain r
    where r: "e = CHR ''.'' # r" "CHR ''.'' \<notin> set r" "length r = 4"
    by blast
  then show "rfind CHR ''.'' (base @ e) = int (length base)"
    using rfind_last by simp
  from r show "length e = 5" by simp
qed

lemma stem_of_extension:
  assumes "base \<noteq> []" "lower e = ''.html''"
  shows "stem (base @ e) = base"
  using assms rfind_extension(2)[OF assms(2)] rfind_extension(1)[OF assms(2), of base]
  by (simp add: stem_def Let_def)

lemma suffix_path_html:
  "lower (suffix_path nm) = ''.html'' \<longleftrightarrow> has_extension ''.html'' nm"
proof
  assume a: "lower (suffix_path nm) = ''.html''"
  then have "suffix_path nm \<noteq> []" by (auto simp add: lower_def)
  then have "0 < rfind CHR ''.'' nm"
    by (auto simp add: suffix_path_def Let_def split: if_splits)
  then have "stem nm \<noteq> []"
    using rfind_bounds[of "CHR ''.''" nm]
    by (auto simp add: stem_def Let_def split: if_splits)
  with a stem_suffix_path[of nm] show "has_extension ''.html'' nm"
    unfolding has_extension_def by metis
next
  assume "has_extension ''.html'' nm"
  then obtain base e where b: "base \<noteq> []" "nm = base @ e" "lower e = ''.html''"
    unfolding has_extension_def by blast
  from b rfind_extension(2)[OF b(3)] rfind_extension(1)[OF b(3), of base] have "suffix_path nm = e"
    by (simp add: suffix_path_def Let_def)
  with b show "lower (suffix_path nm) = ''.html''" by simp
qed

lemma discover_filter:
  "discover l = sort_key name [f \<leftarrow> l. is_file f \<and> has_extension ''.html'' (name f)]"
  by (simp add: discover_def suffix_path_html)

lemma mset_pair: "mset xs = {#a, b#} \<Longrightarrow> xs = [a, b] \<or> xs = [b, a]"
proof (cases xs)
  case Nil
  assume "mset xs = {#a, b#}"
  with Nil show ?thesis by simp
next
  case (Cons x ys)
  assume m: "mset xs = {#a, b#}"
  then have "size (mset xs) = 2" by simp
  then have "length ys = 1" using Cons by simp
  then obtain y where "ys = [y]" by (cases ys) auto
  with m Cons show ?thesis
    by (auto simp add: add_eq_conv_ex)
qed

lemma discover_alpha_beta_gamma:
  assumes "mset l = {#alpha, beta, gamma#}"
  shows "discover l = [alpha, beta]"
proof -
  have "mset [f \<leftarrow> l. is_file f \<and> lower (suffix_path (name f)) = ''.html''] = {#alpha, beta#}"
    using assms
    by (simp add: alpha_def beta_def gamma_def suffix_path_def lower_def lower_char_def Let_def)
  then have "[f \<leftarrow> l. is_file f \<and> lower (suffix_path (name f)) = ''.html''] = [alpha, beta]
     \<or> [f \<leftarrow> l. is_file f \<and> lower (suffix_path (name f)) = ''.html''] = [beta, alpha]"
    by (rule mset_pair)
  moreover have "sort_key name [alpha, beta] = [alpha, beta]"
    and "sort_key name [beta, alpha] = [alpha, beta]"
    by (simp_all add: alpha_def beta_def)
  ultimately show ?thesis by (auto simp add: discover_def)
qed

text \<open>
  C5. Discovery returns the regular files of the listing whose name has the extension
  \<^verbatim>\<open>.html\<close> in any spelling of case, each as often as it is listed, in the order of
  their names; the identifier \<open>stem\<close> of an entry is its name without that extension.
  For a directory that holds \<^verbatim>\<open>alpha.html\<close>, \<^verbatim>\<open>beta.html\<close> and \<^verbatim>\<open>gamma.txt\<close>, listed
  in any order, the entries are \<open>alpha\<close> and \<open>beta\<close>, in this order.
\<close>

theorem discover_sorted_html_files:
  "mset (discover l) = mset [f \<leftarrow> l. is_file f \<and> has_extension ''.html'' (name f)] \<and>
   sorted (map name (discover l)) \<and>
   (\<forall>f \<in> set (discover l). \<exists>e. lower e = ''.html'' \<and> name f = stem (name f) @ e) \<and>
   (mset l = {#alpha, beta, gamma#} \<longrightarrow>
      map (\<lambda>f. stem (name f)) (discover l) = [''alpha'', ''beta''])"
proof (intro conjI ballI impI)
  show "mset (discover l) = mset [f \<leftarrow> l. is_file f \<and> has_extension ''.html'' (name f)]"
    by (simp add: discover_filter)
  show "sorted (map name (discover l))"
    by (simp add: discover_def)
next
  fix f
  assume "f \<in> set (discover l)"
  then have "has_extension ''.html'' (name f)"
    by (simp add: discover_filter)
  then obtain base e where b: "base \<noteq> []" "name f = base @ e" "lower e = ''.html''"
    unfolding has_extension_def by blast
  then have "stem (name f) = base"
    by (simp add: stem_of_extension)
  with b show "\<exists>e. lower e = ''.html'' \<and> name f = stem (name f) @ e"
    by auto
next
  assume "mset l = {#alpha, beta, gamma#}"
  then have "discover l = [alpha, beta]"
    by (rule discover_alpha_beta_gamma)
  then show "map (\<lambda>f. stem (name f)) (discover l) = [''alpha'', ''beta'']"
    by (simp add: alpha_def beta_def stem_def Let_def)
qed

theorem discover_sorted_html_files_witness:
  "map name (discover [gamma, beta, alpha]) = [''alpha.html'', ''beta.html''] \<and>
   map (\<lambda>f. stem (name f)) (discover [gamma, beta, alpha]) = [''alpha'', ''beta'']"
proof -
  have m: "mset [gamma, beta, alpha] = {#alpha, beta, gamma#}"
    by simp
  have "discover [gamma, beta, alpha] = [alpha, beta]"
    by (simp add: discover_def alpha_def beta_def gamma_def suffix_path_def lower_def
        lower_char_def Let_def)
  with m discover_sorted_html_files[of "[gamma, beta, alpha]"] show ?thesis
    by (simp add: alpha_def beta_def)
qed

subsection \<open>The readiness predicate\<close>

lemma includes_js_sublist: "includes_js t pat \<longleftrightarrow> sublist pat t"
  by (induction t) (auto simp add: sublist_Cons_right)

lemma sublist_map_iff: "sublist p (map f t) \<longleftrightarrow> (\<exists>u. sublist u t \<and> map f u = p)"
proof
  assume "sublist p (map f t)"
  then show "\<exists>u. sublist u t \<and> map f u = p"
    using sublist_map_rightE by blast
next
  assume "\<exists>u. sublist u t \<and> map f u = p"
  then show "sublist p (map f t)"
    using map_mono_sublist by blast
qed

lemma sublist_map_dropWhile:
  assumes "p \<noteq> []" and "\<And>c. P c \<Longrightarrow> f c \<notin> set p"
  shows "sublist p (map f (dropWhile P s)) \<longleftrightarrow> sublist p (map f s)"
proof (induction s)
  case Nil
  show ?case by simp
next
  case (Cons c s)
  show ?case
  proof (cases "P c")
    case True
    then have "f c \<notin> set p" by (rule assms(2))
    with assms(1) have "\<not> prefix p (f c # map f s)"
      by (cases p) auto
    with True Cons.IH show ?thesis
      by (simp add: sublist_Cons_right)
  next
    case False
    then show ?thesis by simp
  qed
qed

lemma sublist_map_trim:
  assumes "p \<noteq> []" and "\<And>c. is_space c \<Longrightarrow> f c \<notin> set p"
  shows "sublist p (map f (trim s)) \<longleftrightarrow> sublist p (map f s)"
proof -
  have r: "rev p \<noteq> []" "\<And>c. is_space c \<Longrightarrow> f c \<notin> set (rev p)"
    using assms by simp_all
  have "sublist p (map f (trim s)) \<longleftrightarrow>
      sublist (rev p) (map f (dropWhile is_space (rev (dropWhile is_space s))))"
    by (simp add: trim_def sublist_rev_right rev_map[symmetric])
  also have "\<dots> \<longleftrightarrow> sublist (rev p) (map f (rev (dropWhile is_space s)))"
    using r by (rule sublist_map_dropWhile)
  also have "\<dots> \<longleftrightarrow> sublist p (map f (dropWhile is_space s))"
    by (simp add: sublist_rev_left rev_map[symmetric])
  also have "\<dots> \<longleftrightarrow> sublist p (map f s)"
    using assms by (rule sublist_map_dropWhile)
  finally show ?thesis .
qed

lemma space_not_in_sentinel: "is_space c \<Longrightarrow> lower_char c \<notin> set ''loading...''"
  by (auto simp add: is_space_def lower_char_def Let_def)

lemma sentinel_trim:
  "sublist ''loading...'' (lower (trim s)) \<longleftrightarrow> sublist ''loading...'' (lower s)"
  unfolding lower_def
  by (rule sublist_map_trim) (simp_all add: space_not_in_sentinel del: set_simps)

text \<open>
  C2. The readiness predicate holds exactly when the element \<^verbatim>\<open>projectContent\<close> is
  there, its text is not empty once trimmed, and the trimmed text in lower case does not
  contain \<^verbatim>\<open>loading...\<close>; the last condition is the same as: no part of the text,
  anywhere in it and in any spelling of case, is the sentinel.
\<close>

theorem ready_iff:
  "(ready doc \<longleftrightarrow>
      (\<exists>el. doc ''projectContent'' = Some el \<and> trim (element_text el) \<noteq> [] \<and>
            \<not> sublist ''loading...'' (lower (trim (element_text el))))) \<and>
   (ready doc \<longleftrightarrow>
      (\<exists>el. doc ''projectContent'' = Some el \<and> trim (element_text el) \<noteq> [] \<and>
            \<not> (\<exists>u. sublist u (element_text el) \<and> lower u = ''loading...'')))"
proof -
  have a: "ready doc \<longleftrightarrow>
      (\<exists>el. doc ''projectContent'' = Some el \<and> trim (element_text el) \<noteq> [] \<and>
            \<not> sublist ''loading...'' (lower (trim (element_text el))))"
    by (auto simp add: ready_def Let_def includes_js_sublist split: option.splits)
  have "\<And>t. sublist ''loading...'' (lower (trim t)) \<longleftrightarrow>
      (\<exists>u. sublist u t \<and> lower u = ''loading...'')"
    unfolding sentinel_trim unfolding lower_def by (rule sublist_map_iff)
  with a show ?thesis by simp
qed

lemma ready_examples:
  "ready (showing ''Hello'')"
  "\<not> ready (showing ''  LOADING... please wait'')"
  "\<not> ready (showing ''   '')"
  "\<not> ready (\<lambda>ident. None)"
  by code_simp+

subsection \<open>One iteration and the loop\<close>

lemmas ops = and_then_def print_msg_def emit_def new_page_def close_page_def goto_def
  wait_for_render_def content_def write_text_def stat_size_def wiki_file_def



lemma try_body_frame:
  "\<exists>evs. trace (snd (try_body s fname page u w)) = trace w @ evs \<and>
     list_all (\<lambda>x. fst x = Some fname \<and> rendering (snd x) = [] \<and>
                  session_step (Some page, used) (snd x) = Some (Some page, used)) evs \<and>
     open_pages (snd (try_body s fname page u w)) = open_pages w \<and>
     pages_created (snd (try_body s fname page u w)) = pages_created w \<and>
     entries_dir (snd (try_body s fname page u w)) = entries_dir w \<and>
     (wiki_dir w \<noteq> None \<longrightarrow> wiki_dir (snd (try_body s fname page u w)) \<noteq> None)"
  by (auto simp add: try_body_def ops Let_def split: option.splits sum.splits)


lemma try_render_fields:
  "open_pages (try_render s fname page u w) = remove1 page (open_pages w)"
  "pages_created (try_render s fname page u w) = pages_created w"
  "entries_dir (try_render s fname page u w) = entries_dir w"
  "wiki_dir w \<noteq> None \<Longrightarrow> wiki_dir (try_render s fname page u w) \<noteq> None"
  by (auto simp add: try_render_def try_body_def ops Let_def split: option.splits sum.splits)

lemma try_render_started:
  "started (try_render s fname page u w) = started w"
  by (auto simp add: try_render_def try_body_def ops started_def Let_def
      split: option.splits sum.splits)

lemma try_render_scopes:
  "\<exists>xs. scopes (try_render s fname page u w) = scopes w @ xs \<and> set xs \<subseteq> {fname}"
  by (auto simp add: try_render_def try_body_def ops scopes_def Let_def
      split: option.splits sum.splits)

lemma render_entry_result:
  "fst (render_entry ev entry w) =
     (case new_page_result (sessions ev (name entry)) of None \<Rightarrow> Inr () | Some e \<Rightarrow> Inl e)"
  by (simp add: render_entry_def new_page_def Let_def split: option.splits)

lemma render_entry_refused:
  assumes "new_page_result (sessions ev (name entry)) = Some e"
  shows "render_entry ev entry w =
     (Inl e, w\<lparr>trace := trace w @ [(Some (name entry), Print (Rendering (name entry)))]\<rparr>)"
  using assms by (simp add: render_entry_def new_page_def print_msg_def emit_def Let_def)

lemma render_entry_acquired:
  assumes "new_page_result (sessions ev (name entry)) = None"
  shows "snd (render_entry ev entry w) =
     try_render (sessions ev (name entry)) (name entry) (pages_created w)
       (Url ''127.0.0.1'' (free_port ev) ''data.html'' (stem (name entry)))
       (w\<lparr>pages_created := Suc (pages_created w),
           open_pages := pages_created w # open_pages w,
           trace := trace w @
             [(Some (name entry), Print (Rendering (name entry))),
              (Some (name entry), NewPage (pages_created w)),
              (Some (name entry), OnConsole (pages_created w))]\<rparr>)"
  using assms by (simp add: render_entry_def new_page_def print_msg_def emit_def Let_def)

lemma render_entry_fields:
  "open_pages (snd (render_entry ev entry w)) = open_pages w"
  "entries_dir (snd (render_entry ev entry w)) = entries_dir w"
  "wiki_dir w \<noteq> None \<Longrightarrow> wiki_dir (snd (render_entry ev entry w)) \<noteq> None"
  "pages_created w \<le> pages_created (snd (render_entry ev entry w))"
  by (cases "new_page_result (sessions ev (name entry))";
      simp add: render_entry_refused render_entry_acquired try_render_fields)+

lemma render_entry_started:
  "started (snd (render_entry ev entry w)) = started w @ [name entry]"
proof (cases "new_page_result (sessions ev (name entry))")
  case (Some e)
  then show ?thesis by (simp add: render_entry_refused started_def)
next
  case None
  then show ?thesis by (simp add: render_entry_acquired try_render_started) (simp add: started_def)
qed

lemma render_entry_scopes:
  "\<exists>xs. scopes (snd (render_entry ev entry w)) = scopes w @ xs \<and> set xs \<subseteq> {name entry}"
proof (cases "new_page_result (sessions ev (name entry))")
  case (Some e)
  then show ?thesis by (simp add: render_entry_refused scopes_def)
next
  case None
  let ?w3 = "w\<lparr>pages_created := Suc (pages_created w),
           open_pages := pages_created w # open_pages w,
           trace := trace w @
             [(Some (name entry), Print (Rendering (name entry))),
              (Some (name entry), NewPage (pages_created w)),
              (Some (name entry), OnConsole (pages_created w))]\<rparr>"
  from try_render_scopes[of "sessions ev (name entry)" "name entry" "pages_created w"
      "Url ''127.0.0.1'' (free_port ev) ''data.html'' (stem (name entry))" ?w3]
  obtain xs where xs: "scopes (snd (render_entry ev entry w)) = scopes ?w3 @ xs \<and>
      set xs \<subseteq> {name entry}"
    unfolding render_entry_acquired[OF None] ..
  have "scopes ?w3 = scopes w @ [name entry, name entry, name entry]"
    by (simp add: scopes_def)
  with xs have "scopes (snd (render_entry ev entry w)) =
      scopes w @ ([name entry, name entry, name entry] @ xs) \<and>
      set ([name entry, name entry, name entry] @ xs) \<subseteq> {name entry}"
    by simp
  then show ?thesis by (rule exI)
qed


lemma for_entries_step:
  "for_entries ev (entry # rest) w =
     (case new_page_result (sessions ev (name entry)) of
        Some e \<Rightarrow> (Inl e, snd (render_entry ev entry w))
      | None \<Rightarrow> for_entries ev rest (snd (render_entry ev entry w)))"
proof -
  obtain r w' where rw: "render_entry ev entry w = (r, w')"
    by (cases "render_entry ev entry w")
  with render_entry_result[of ev entry w] show ?thesis
    by (simp split: option.splits)
qed

lemma for_entries_result:
  "fst (for_entries ev es w) =
     (case acquisition_errors ev es of [] \<Rightarrow> Inr () | e # others \<Rightarrow> Inl e)"
proof (induction es arbitrary: w)
  case Nil
  show ?case by (simp add: acquisition_errors_def map_filter_simps)
next
  case (Cons entry rest)
  show ?case
  proof (cases "new_page_result (sessions ev (name entry))")
    case None
    then show ?thesis
      using Cons.IH[of "snd (render_entry ev entry w)"]
      by (simp only: for_entries_step) (simp add: acquisition_errors_def map_filter_simps)
  next
    case (Some e)
    then show ?thesis
      by (simp only: for_entries_step) (simp add: acquisition_errors_def map_filter_simps)
  qed
qed

lemma for_entries_started:
  "started (snd (for_entries ev es w)) = started w @ map name (attempted ev es)"
proof (induction es arbitrary: w)
  case Nil
  show ?case by simp
next
  case (Cons entry rest)
  show ?case
  proof (cases "new_page_result (sessions ev (name entry))")
    case None
    then show ?thesis
      using Cons.IH[of "snd (render_entry ev entry w)"]
      by (simp only: for_entries_step) (simp add: render_entry_started)
  next
    case (Some e)
    then show ?thesis
      by (simp only: for_entries_step) (simp add: render_entry_started)
  qed
qed

lemma for_entries_fields:
  "open_pages (snd (for_entries ev es w)) = open_pages w \<and>
   entries_dir (snd (for_entries ev es w)) = entries_dir w \<and>
   (wiki_dir w \<noteq> None \<longrightarrow> wiki_dir (snd (for_entries ev es w)) \<noteq> None)"
proof (induction es arbitrary: w)
  case Nil
  show ?case by simp
next
  case (Cons entry rest)
  let ?w1 = "snd (render_entry ev entry w)"
  have f: "open_pages ?w1 = open_pages w" "entries_dir ?w1 = entries_dir w"
    "wiki_dir w \<noteq> None \<longrightarrow> wiki_dir ?w1 \<noteq> None"
    by (simp_all add: render_entry_fields)
  show ?case
  proof (cases "new_page_result (sessions ev (name entry))")
    case None
    then have "for_entries ev (entry # rest) w = for_entries ev rest ?w1"
      by (simp only: for_entries_step) simp
    with Cons.IH[of ?w1] f show ?thesis by simp
  next
    case (Some e)
    then have "snd (for_entries ev (entry # rest) w) = ?w1"
      by (simp only: for_entries_step) simp
    with f show ?thesis by simp
  qed
qed

lemma for_entries_scopes:
  assumes "sorted (map name es)"
  shows "\<exists>xs. scopes (snd (for_entries ev es w)) = scopes w @ xs \<and> sorted xs \<and>
     set xs \<subseteq> name ` set es"
  using assms
proof (induction es arbitrary: w)
  case Nil
  show ?case by simp
next
  case (Cons entry rest)
  let ?w1 = "snd (render_entry ev entry w)"
  obtain xs where xs: "scopes ?w1 = scopes w @ xs" "set xs \<subseteq> {name entry}"
    using render_entry_scopes[of ev entry w] by blast
  from xs(2) have sx: "sorted xs"
    by (induction xs) auto
  show ?case
  proof (cases "new_page_result (sessions ev (name entry))")
    case (Some e)
    then have "snd (for_entries ev (entry # rest) w) = ?w1"
      by (simp only: for_entries_step) simp
    with xs sx have "scopes (snd (for_entries ev (entry # rest) w)) = scopes w @ xs \<and>
       sorted xs \<and> set xs \<subseteq> name ` set (entry # rest)"
      by auto
    then show ?thesis by (rule exI)
  next
    case None
    then have s: "for_entries ev (entry # rest) w = for_entries ev rest ?w1"
      by (simp only: for_entries_step) simp
    from Cons.prems have "sorted (map name rest)" by simp
    from Cons.IH[OF this, of ?w1]
    obtain ys where ys: "scopes (snd (for_entries ev rest ?w1)) = scopes ?w1 @ ys"
      "sorted ys" "set ys \<subseteq> name ` set rest"
      by blast
    from Cons.prems have le: "\<forall>y \<in> name ` set rest. name entry \<le> y" by simp
    have "sorted (xs @ ys)"
      using sx ys(2,3) xs(2) le by (auto simp add: sorted_append)
    with xs ys s have "scopes (snd (for_entries ev (entry # rest) w)) = scopes w @ (xs @ ys) \<and>
       sorted (xs @ ys) \<and> set (xs @ ys) \<subseteq> name ` set (entry # rest)"
      by auto
    then show ?thesis by (rule exI)
  qed
qed


subsection \<open>The script\<close>


lemma render_all_directory:
  assumes "entries_dir w = Directory l"
  shows "render_all ev w =
     (let w3 = w\<lparr>trace := trace w @
                 [(None, ServerStarted (free_port ev)), (None, BrowserLaunched), (None, Listed)]\<rparr>
      in if discover l = []
         then (Inr (), w3\<lparr>trace := trace w3 @
                 [(None, Print NothingToRender), (None, BrowserClosed)]\<rparr>)
         else (case acquisition_errors ev (discover l) of
                 [] \<Rightarrow> (Inr (), (snd (for_entries ev (discover l) w3))
                          \<lparr>trace := trace (snd (for_entries ev (discover l) w3)) @
                             [(None, BrowserClosed), (None, Print Done)]\<rparr>)
               | e # others \<Rightarrow> (Inl e, snd (for_entries ev (discover l) w3))))"
proof -
  let ?w3 = "w\<lparr>trace := trace w @
                 [(None, ServerStarted (free_port ev)), (None, BrowserLaunched), (None, Listed)]\<rparr>"
  obtain r w4 where rw: "for_entries ev (discover l) ?w3 = (r, w4)"
    by (cases "for_entries ev (discover l) ?w3")
  with for_entries_result[of ev "discover l" ?w3]
  have r: "r = (case acquisition_errors ev (discover l) of [] \<Rightarrow> Inr () | e # others \<Rightarrow> Inl e)"
    by simp
  show ?thesis
    using assms rw r
    by (simp add: render_all_def emit_def print_msg_def Let_def split: list.splits)
qed

lemma mkdir_fields:
  "trace (mkdir w) = trace w @ [(None, Mkdir)]"
  "wiki_dir (mkdir w) \<noteq> None"
  "wiki_file (mkdir w) fname = wiki_file w fname"
  "entries_dir (mkdir w) = entries_dir w"
  "open_pages (mkdir w) = open_pages w"
  "pages_created (mkdir w) = pages_created w"
  "writes (mkdir w) = writes w"
  "started (mkdir w) = started w"
  "scopes (mkdir w) = scopes w"
  by (simp_all add: mkdir_def emit_def wiki_file_def writes_def started_def scopes_def
      split: option.splits)

lemma build_directory:
  assumes "entries_dir w = Directory l"
  shows "build ev w =
     (case render_all ev (mkdir w) of
        (Inl e, w') \<Rightarrow> (Raised e, w')
      | (Inr u, w') \<Rightarrow> (Returned, w'))"
  using assms by (simp add: build_def)

lemma build_not_directory:
  assumes "\<not> exists_path (entries_dir w) \<or> \<not> is_dir (entries_dir w)"
  shows "build ev w =
     (SystemExit (''Entries directory not found: '' @ cwd ev @ ''/entries''), w)"
  using assms by (auto simp add: build_def)


lemma build_world:
  assumes "entries_dir w = Directory l"
  shows "\<exists>tail. snd (build ev w) =
       (snd (for_entries ev (discover l)
          ((mkdir w)\<lparr>trace := trace (mkdir w) @
             [(None, ServerStarted (free_port ev)), (None, BrowserLaunched), (None, Listed)]\<rparr>)))
       \<lparr>trace := trace (snd (for_entries ev (discover l)
          ((mkdir w)\<lparr>trace := trace (mkdir w) @
             [(None, ServerStarted (free_port ev)), (None, BrowserLaunched), (None, Listed)]\<rparr>)))
          @ tail\<rparr> \<and>
     (tail = [(None, Print NothingToRender), (None, BrowserClosed)] \<or>
      tail = [(None, BrowserClosed), (None, Print Done)] \<or> tail = [])"
proof -
  from assms have d: "entries_dir (mkdir w) = Directory l" by (simp add: mkdir_fields)
  let ?w3 = "(mkdir w)\<lparr>trace := trace (mkdir w) @
             [(None, ServerStarted (free_port ev)), (None, BrowserLaunched), (None, Listed)]\<rparr>"
  let ?wf = "snd (for_entries ev (discover l) ?w3)"
  show ?thesis
  proof (cases "discover l = []")
    case True
    then have "snd (build ev w) =
        ?wf\<lparr>trace := trace ?wf @ [(None, Print NothingToRender), (None, BrowserClosed)]\<rparr>"
      unfolding build_directory[OF assms] render_all_directory[OF d]
      by (simp add: Let_def)
    then show ?thesis by blast
  next
    case False
    show ?thesis
    proof (cases "acquisition_errors ev (discover l)")
      case Nil
      with False have "snd (build ev w) =
          ?wf\<lparr>trace := trace ?wf @ [(None, BrowserClosed), (None, Print Done)]\<rparr>"
        unfolding build_directory[OF assms] render_all_directory[OF d]
        by (simp add: Let_def)
      then show ?thesis by blast
    next
      case (Cons e others)
      with False have "snd (build ev w) = ?wf\<lparr>trace := trace ?wf @ []\<rparr>"
        unfolding build_directory[OF assms] render_all_directory[OF d]
        by (simp add: Let_def)
      then show ?thesis by blast
    qed
  qed
qed

lemma attempted_prefix: "prefix (attempted ev es) es"
  by (induction es) auto

lemma attempted_all:
  "\<forall>f \<in> set es. new_page_result (sessions ev (name f)) = None \<Longrightarrow> attempted ev es = es"
  by (induction es) auto

lemma build_directory_facts:
  assumes "entries_dir w = Directory l"
  shows "started (snd (build ev w)) = started w @ map name (attempted ev (discover l))"
    and "\<exists>xs. scopes (snd (build ev w)) = scopes w @ xs \<and> sorted xs"
    and "open_pages (snd (build ev w)) = open_pages w"
    and "wiki_dir (snd (build ev w)) \<noteq> None"
proof -
  let ?w3 = "(mkdir w)\<lparr>trace := trace (mkdir w) @
             [(None, ServerStarted (free_port ev)), (None, BrowserLaunched), (None, Listed)]\<rparr>"
  let ?wf = "snd (for_entries ev (discover l) ?w3)"
  from build_world[OF assms, of ev]
  obtain tail where b: "snd (build ev w) = ?wf\<lparr>trace := trace ?wf @ tail\<rparr>"
    and t: "tail = [(None, Print NothingToRender), (None, BrowserClosed)] \<or>
      tail = [(None, BrowserClosed), (None, Print Done)] \<or> tail = []"
    by blast
  have s3: "started ?w3 = started w" "scopes ?w3 = scopes w" "open_pages ?w3 = open_pages w"
    "wiki_dir ?w3 \<noteq> None"
    using mkdir_fields(2)[of w]
    by (simp_all add: started_def scopes_def mkdir_def emit_def)
  from t have "started (?wf\<lparr>trace := trace ?wf @ tail\<rparr>) = started ?wf"
    by (auto simp add: started_def)
  then show "started (snd (build ev w)) = started w @ map name (attempted ev (discover l))"
    unfolding b by (simp add: for_entries_started s3)
  have "sorted (map name (discover l))" by (simp add: discover_def)
  from for_entries_scopes[OF this, of ev ?w3]
  obtain xs where xs: "scopes ?wf = scopes ?w3 @ xs" "sorted xs" by blast
  from t have "scopes (?wf\<lparr>trace := trace ?wf @ tail\<rparr>) = scopes ?wf"
    by (auto simp add: scopes_def)
  with xs have "scopes (snd (build ev w)) = scopes w @ xs \<and> sorted xs"
    unfolding b by (simp add: s3)
  then show "\<exists>xs. scopes (snd (build ev w)) = scopes w @ xs \<and> sorted xs" by (rule exI)
  show "open_pages (snd (build ev w)) = open_pages w"
    unfolding b using for_entries_fields[of ev "discover l" ?w3] by (simp add: s3)
  show "wiki_dir (snd (build ev w)) \<noteq> None"
    unfolding b using for_entries_fields[of ev "discover l" ?w3] s3(4) by simp
qed


lemma discover_alpha_beta: "discover [beta, gamma, alpha] = [alpha, beta]"
  by (rule discover_alpha_beta_gamma) simp

lemma names_alpha_beta: "name alpha = ''alpha.html''" "name beta = ''beta.html''"
  by (simp_all add: alpha_def beta_def)

lemma sessions_site: "sessions (site ss) = ss"
  by (simp add: site_def)

lemma acquired_sessions:
  "new_page_result quick_session = None"
  "new_page_result slow_session = None"
  "new_page_result offline_session = None"
  "new_page_result crashed_session = Some (Error ''Target closed'')"
  by (simp_all add: quick_session_def slow_session_def offline_session_def crashed_session_def)












subsection \<open>Properties of a run\<close>









text \<open>
  C6. The entries are worked on one after the other in the order of their names: the
  effects made in the loop, each tagged with the entry of its iteration, come in sorted
  order of the entries, so every effect of an entry precedes every effect of a later one;
  the entries begun are a prefix of the sorted discovered names, and all of them when
  every page is opened.
\<close>

theorem entries_rendered_in_sorted_order:
  "sorted (scopes (snd (build ev (start (Directory l) wk)))) \<and>
   sorted (map name (discover l)) \<and>
   prefix (started (snd (build ev (start (Directory l) wk)))) (map name (discover l)) \<and>
   ((\<forall>f \<in> set (discover l). new_page_result (sessions ev (name f)) = None) \<longrightarrow>
      started (snd (build ev (start (Directory l) wk))) = map name (discover l))"
proof -
  have d: "entries_dir (start (Directory l) wk) = Directory l"
    by (simp add: start_def)
  have s0: "scopes (start (Directory l) wk) = []" "started (start (Directory l) wk) = []"
    by (simp_all add: start_def scopes_def started_def)
  from build_directory_facts(2)[OF d, of ev]
  have a: "sorted (scopes (snd (build ev (start (Directory l) wk))))"
    by (auto simp add: s0)
  have b: "sorted (map name (discover l))" by (simp add: discover_def)
  have st: "started (snd (build ev (start (Directory l) wk))) =
      map name (attempted ev (discover l))"
    by (simp add: build_directory_facts(1)[OF d] s0)
  have c: "prefix (started (snd (build ev (start (Directory l) wk)))) (map name (discover l))"
    unfolding st by (rule map_mono_prefix) (rule attempted_prefix)
  have e: "(\<forall>f \<in> set (discover l). new_page_result (sessions ev (name f)) = None) \<longrightarrow>
      started (snd (build ev (start (Directory l) wk))) = map name (discover l)"
    unfolding st by (simp add: attempted_all)
  from a b c e show ?thesis by (intro conjI)
qed

theorem entries_rendered_in_sorted_order_witness:
  "started (snd (build (site (\<lambda>f. quick_session)) (start (Directory [beta, gamma, alpha]) None)))
     = [''alpha.html'', ''beta.html''] \<and>
   sorted (scopes (snd (build (site (\<lambda>f. quick_session))
     (start (Directory [beta, gamma, alpha]) None))))"
proof -
  have "\<forall>f \<in> set [alpha, beta].
      new_page_result (sessions (site (\<lambda>f. quick_session)) (name f)) = None"
    by (simp add: sessions_site acquired_sessions)
  with entries_rendered_in_sorted_order[of "site (\<lambda>f. quick_session)"
      "[beta, gamma, alpha]" None]
  show ?thesis
    by (simp add: discover_alpha_beta names_alpha_beta)
qed



text \<open>
  C7. When the entries directory is missing or is not a directory, the run ends at once
  with \<^verbatim>\<open>SystemExit\<close> and its message, and nothing has happened: the output directory
  is as it was (not created), and no effect is recorded, neither the start of the server
  nor a listing of the entries nor the work on an entry.
\<close>

theorem missing_entries_dir_aborts:
  assumes "\<not> exists_path (entries_dir w) \<or> \<not> is_dir (entries_dir w)"
  shows "build ev w =
       (SystemExit (''Entries directory not found: '' @ cwd ev @ ''/entries''), w) \<and>
     wiki_dir (snd (build ev w)) = wiki_dir w \<and>
     trace (snd (build ev w)) = trace w"
  using assms by (simp add: build_not_directory)

theorem missing_entries_dir_aborts_witness:
  "fst (build (site (\<lambda>f. quick_session)) (start Missing None)) =
       SystemExit ''Entries directory not found: /site/entries'' \<and>
   wiki_dir (snd (build (site (\<lambda>f. quick_session)) (start Missing None))) = None \<and>
   trace (snd (build (site (\<lambda>f. quick_session)) (start Missing None))) = [] \<and>
   fst (build (site (\<lambda>f. quick_session)) (start NotADirectory None)) =
       SystemExit ''Entries directory not found: /site/entries''"
  using missing_entries_dir_aborts[of "start Missing None" "site (\<lambda>f. quick_session)"]
    missing_entries_dir_aborts[of "start NotADirectory None" "site (\<lambda>f. quick_session)"]
  by (simp add: start_def site_def)





end
